theory Spec2Isabelle
  imports Complex_Main "HOL-Library.Product_Lexorder"
begin

section \<open>Numbers\<close>

text \<open>
  Pixel coordinates, widths and heights are Python integers (unbounded), modelled by
  \<^typ>\<open>int\<close>. Areas, radii, distances and clock readings are IEEE doubles in the
  program; they are modelled by exact \<^typ>\<open>real\<close> arithmetic. Python's \<open>int(v)\<close>
  on a float truncates toward zero, \<open>//\<close> on integers is floor division (\<open>div\<close>),
  and \<open>float('inf')\<close> is the one non-finite value the planner uses.
\<close>

definition py_int :: "real \<Rightarrow> int" where
  "py_int v = (if 0 \<le> v then \<lfloor>v\<rfloor> else \<lceil>v\<rceil>)"

datatype pyfloat = Fin real | PosInf

text \<open>\<open>v < w\<close> for a finite \<open>v\<close> and a possibly infinite \<open>w\<close>.\<close>

fun flt :: "real \<Rightarrow> pyfloat \<Rightarrow> bool" where
  "flt v PosInf = True"
| "flt v (Fin w) = (v < w)"

text \<open>\<open>np.linspace(0, 1, 5)\<close>.\<close>

definition linspace_0_1_5 :: "real list" where
  "linspace_0_1_5 = [0, 1/4, 1/2, 3/4, 1]"

text \<open>\<open>range(start, stop, step)\<close> for a positive step (the planner's step is 20).\<close>

function py_range :: "int \<Rightarrow> int \<Rightarrow> int \<Rightarrow> int list" where
  "py_range start stop step =
     (if 0 < step \<and> start < stop then start # py_range (start + step) stop step else [])"
  by pat_completeness auto
termination
  by (relation "measure (\<lambda>(start, stop, step). nat (stop - start))") auto

declare py_range.simps [simp del]

section \<open>Path planner of the steering bot (rocket\_bot.py, calculate\_safe\_move)\<close>

text \<open>An item is the tuple \<open>(cx, cy, area)\<close> appended by \<open>find_items\<close>.\<close>

type_synonym item = "int \<times> int \<times> real"

text \<open>A fireball is the dictionary appended by \<open>find_fireballs\<close>.\<close>

record fireball =
  center :: "int \<times> int"
  bounds :: "int \<times> int \<times> int \<times> int"
  danger_radius :: int

text \<open>A danger zone is the tuple \<open>(fcx, fcy, radius)\<close>.\<close>

type_synonym zone = "int \<times> int \<times> real"

fun danger_zones :: "fireball list \<Rightarrow> zone list" where
  "danger_zones [] = []"
| "danger_zones (fb # fbs) =
     (case center fb of (fcx, fcy) \<Rightarrow>
        (fcx, fcy, real_of_int (danger_radius fb) * 1.5) # danger_zones fbs)"

text \<open>The closure \<open>is_safe(x, y)\<close>: the loop returns at the first zone that contains the point.\<close>

fun is_safe :: "zone list \<Rightarrow> int \<Rightarrow> int \<Rightarrow> bool" where
  "is_safe [] x y = True"
| "is_safe ((dx, dy, radius) # zs) x y =
     (let dist = sqrt (real_of_int ((x - dx)\<^sup>2 + (y - dy)\<^sup>2))
      in if dist < radius then False else is_safe zs x y)"

text \<open>The inner loop over the sample parameters \<open>t\<close>, with its \<open>break\<close>.\<close>

fun path_safe :: "zone list \<Rightarrow> int \<times> int \<Rightarrow> int \<times> int \<Rightarrow> real list \<Rightarrow> bool" where
  "path_safe zs (rx, ry) (ix, iy) [] = True"
| "path_safe zs (rx, ry) (ix, iy) (t # ts) =
     (let px = py_int (real_of_int rx + t * real_of_int (ix - rx));
          py = py_int (real_of_int ry + t * real_of_int (iy - ry))
      in if \<not> is_safe zs px py then False else path_safe zs (rx, ry) (ix, iy) ts)"

text \<open>The loop over the items; the accumulator is \<open>(best_target, best_score)\<close>.\<close>

fun scan_items ::
  "zone list \<Rightarrow> int \<times> int \<Rightarrow> item list \<Rightarrow> (int \<times> int) option \<times> pyfloat \<Rightarrow>
     (int \<times> int) option \<times> pyfloat" where
  "scan_items zs (rx, ry) [] acc = acc"
| "scan_items zs (rx, ry) ((ix, iy, area) # items) (best_target, best_score) =
     (if path_safe zs (rx, ry) (ix, iy) linspace_0_1_5 then
        (let dist = sqrt (real_of_int ((ix - rx)\<^sup>2 + (iy - ry)\<^sup>2))
         in if flt dist best_score
            then scan_items zs (rx, ry) items (Some (ix, iy), Fin dist)
            else scan_items zs (rx, ry) items (best_target, best_score))
      else scan_items zs (rx, ry) items (best_target, best_score))"

text \<open>The fallback's inner loop: \<open>danger_score\<close> accumulated over the zones.\<close>

fun danger_score :: "zone list \<Rightarrow> int \<Rightarrow> int \<Rightarrow> real \<Rightarrow> real" where
  "danger_score [] test_x ry score = score"
| "danger_score ((dx, dy, radius) # zs) test_x ry score =
     (let dist = sqrt (real_of_int ((test_x - dx)\<^sup>2 + (ry - dy)\<^sup>2))
      in if dist < radius * 2
         then danger_score zs test_x ry (score + (radius * 2 - dist))
         else danger_score zs test_x ry score)"

text \<open>The fallback's outer loop; the accumulator is \<open>(safe_x, min_danger)\<close>.\<close>

fun scan_positions :: "zone list \<Rightarrow> int \<Rightarrow> int list \<Rightarrow> int \<times> pyfloat \<Rightarrow> int \<times> pyfloat" where
  "scan_positions zs ry [] acc = acc"
| "scan_positions zs ry (test_x # xs) (safe_x, min_danger) =
     (let score = danger_score zs test_x ry 0
      in if flt score min_danger
         then scan_positions zs ry xs (test_x, Fin score)
         else scan_positions zs ry xs (safe_x, min_danger))"

definition calculate_safe_move ::
  "(int \<times> int) option \<Rightarrow> item list \<Rightarrow> fireball list \<Rightarrow> int \<Rightarrow> (int \<times> int) option" where
  "calculate_safe_move rocket_pos items fireballs frame_width =
     (case rocket_pos of
        None \<Rightarrow> None
      | Some (rx, ry) \<Rightarrow>
          (let zs = danger_zones fireballs in
           case fst (scan_items zs (rx, ry) items (None, PosInf)) of
             Some best_target \<Rightarrow> Some best_target
           | None \<Rightarrow>
               Some (fst (scan_positions zs ry (py_range 50 (frame_width - 50) 20) (rx, PosInf)),
                     ry)))"

section \<open>Contour classification (find\_rocket, find\_items, find\_fireballs, find\_red\_boxes)\<close>

text \<open>
  The masks and contours come from OpenCV. A contour is represented by the values the
  program reads from it: \<open>cv2.contourArea\<close>, \<open>cv2.boundingRect\<close> as \<open>(x, y, w, h)\<close>,
  the spatial moments \<open>m00\<close>, \<open>m10\<close>, \<open>m01\<close> of \<open>cv2.moments\<close>, and the number of
  vertices of \<open>cv2.approxPolyDP(contour, 0.02 * arcLength, True)\<close>.
\<close>

record contour =
  contourArea :: real
  boundingRect :: "int \<times> int \<times> int \<times> int"
  m00 :: real
  m10 :: real
  m01 :: real
  approx_len :: nat

text \<open>The loop of \<open>find_rocket\<close> over the contours sorted by area; \<open>Some\<close> is its \<open>return\<close>.\<close>

fun find_rocket_loop :: "contour list \<Rightarrow> (int \<times> int) option" where
  "find_rocket_loop [] = None"
| "find_rocket_loop (c # cs) =
     (let area = contourArea c
      in if 500 < area \<and> area < 10000 then
           (if m00 c > 0
            then Some (py_int (m10 c / m00 c), py_int (m01 c / m00 c))
            else find_rocket_loop cs)
         else find_rocket_loop cs)"

text \<open>
  \<open>find_rocket\<close> reads and writes \<open>self.rocket_pos\<close>: the model takes the stored position
  and returns the stored position afterwards together with the returned value.
  \<open>sorted(contours, key=cv2.contourArea, reverse=True)\<close> is a stable descending sort.
\<close>

definition find_rocket ::
  "(int \<times> int) option \<Rightarrow> contour list \<Rightarrow> (int \<times> int) option \<times> (int \<times> int) option" where
  "find_rocket rocket_pos contours =
     (case (if contours \<noteq> []
            then find_rocket_loop (sort_key (\<lambda>c. - contourArea c) contours)
            else None) of
        Some p \<Rightarrow> (Some p, Some p)
      | None \<Rightarrow> (rocket_pos, rocket_pos))"

fun find_items :: "contour list \<Rightarrow> item list" where
  "find_items [] = []"
| "find_items (c # cs) =
     (let area = contourArea c
      in if 1000 < area \<and> area < 20000 then
           (case boundingRect c of (x, y, w, h) \<Rightarrow>
              (let aspect_ratio = (if h > 0 then real_of_int w / real_of_int h else 0)
               in if 0.5 < aspect_ratio \<and> aspect_ratio < 2.0
                  then (x + w div 2, y + h div 2, area) # find_items cs
                  else find_items cs))
         else find_items cs)"

fun find_fireballs :: "contour list \<Rightarrow> fireball list" where
  "find_fireballs [] = []"
| "find_fireballs (c # cs) =
     (let area = contourArea c
      in if area > 2000 then
           (case boundingRect c of (x, y, w, h) \<Rightarrow>
              \<lparr>center = (x + w div 2, y + h div 2), bounds = (x, y, w, h),
               danger_radius = max w h\<rparr> # find_fireballs cs)
         else find_fireballs cs)"

section \<open>Click bot (shooter\_bot.py)\<close>

text \<open>A box is the tuple \<open>(x, y, w, h)\<close> appended by \<open>find_red_boxes\<close>.\<close>

type_synonym box = "int \<times> int \<times> int \<times> int"


text \<open>The capture region dictionary; \<open>top_edge\<close> is its key \<open>'top'\<close>.\<close>

record region =
  left :: int
  top_edge :: int
  width :: int
  height :: int

text \<open>The sort key \<open>lambda box: (box[1], box[0])\<close>; tuples compare lexicographically.\<close>

definition box_key :: "box \<Rightarrow> int \<times> int" where
  "box_key b = (case b of (x, y, w, h) \<Rightarrow> (y, x))"

text \<open>
  \<open>red_boxes.sort(key=...)\<close> followed by \<open>red_boxes[0]\<close>. The program reads index 0 only
  under the guard \<open>if red_boxes\<close>; on an empty list the read would raise IndexError,
  which is the value \<open>None\<close> here.
\<close>

definition first_box :: "box list \<Rightarrow> box option" where
  "first_box red_boxes =
     (case sort_key box_key red_boxes of [] \<Rightarrow> None | b # _ \<Rightarrow> Some b)"

text \<open>\<open>click_box\<close>: the screen coordinates at which the button is pressed and released.\<close>

definition click_box :: "int \<Rightarrow> int \<Rightarrow> region \<Rightarrow> int \<times> int" where
  "click_box box_x box_y reg = (left reg + box_x, top_edge reg + box_y)"

text \<open>
  The loop variables of \<open>run_bot\<close> that the click logic uses. \<open>clicked\<close> is the log of the
  calls of \<open>click_box\<close>: the clock reading \<open>current_time\<close> of the iteration and the screen
  point, oldest first.
\<close>

record shooter =
  last_click_time :: real
  total_clicks :: nat
  clicked :: "(real \<times> int \<times> int) list"

definition shooter_init :: shooter where
  "shooter_init = \<lparr>last_click_time = 0, total_clicks = 0, clicked = []\<rparr>"

text \<open>
  One iteration of the \<open>while\<close> loop, from the detections \<open>red_boxes\<close> and the clock reading
  \<open>current_time\<close> of that iteration.
\<close>

definition shooter_step :: "real \<Rightarrow> region \<Rightarrow> box list \<Rightarrow> real \<Rightarrow> shooter \<Rightarrow> shooter" where
  "shooter_step click_delay reg red_boxes current_time s =
     (if red_boxes \<noteq> [] \<and> current_time - last_click_time s \<ge> click_delay then
        (case first_box red_boxes of
           None \<Rightarrow> s
         | Some (x, y, w, h) \<Rightarrow>
             (let click_x = x + w div 2;
                  click_y = y + h div 2
              in s\<lparr>clicked := clicked s @ [(current_time, click_box click_x click_y reg)],
                    total_clicks := total_clicks s + 1,
                    last_click_time := current_time\<rparr>))
      else s)"

text \<open>The loop over a finite run: one pair of detections and clock reading per iteration.\<close>

fun shooter_loop :: "real \<Rightarrow> region \<Rightarrow> (box list \<times> real) list \<Rightarrow> shooter \<Rightarrow> shooter" where
  "shooter_loop click_delay reg [] s = s"
| "shooter_loop click_delay reg ((red_boxes, current_time) # obs) s =
     shooter_loop click_delay reg obs (shooter_step click_delay reg red_boxes current_time s)"

section \<open>Steering bot: actuator and run loop (rocket\_bot.py, move\_rocket and run)\<close>

datatype exn = KeyboardInterrupt | OtherException

datatype pointer_op = MoveTo int int | MouseDown | MouseUp

text \<open>
  The fields of \<open>RocketBot\<close> that the loop uses, the loop's local variable \<open>target\<close>
  (\<open>None\<close> while it is unbound), and the environment: \<open>button_down\<close> is the state of the
  pointer's primary button, \<open>pointer_ops\<close> the operations issued so far (oldest first), and
  \<open>fault\<close> the exception that the environment raises in the try block, with the number of
  library calls that still succeed before it.
\<close>

record bot =
  game_region :: "region option"
  rocket_pos :: "(int \<times> int) option"
  running :: bool
  mouse_pressed :: bool
  emergency_stop :: bool
  target_var :: "(int \<times> int) option option"
  button_down :: bool
  pointer_ops :: "pointer_op list"
  fault :: "(nat \<times> exn) option"

text \<open>How a statement sequence ends: it falls through, it breaks the loop, or it raises.\<close>

datatype signal = Next | Break | Raised exn

fun then_do :: "signal \<times> bot \<Rightarrow> (bot \<Rightarrow> signal \<times> bot) \<Rightarrow> signal \<times> bot" where
  "then_do (Next, s) f = f s"
| "then_do (Break, s) f = (Break, s)"
| "then_do (Raised e, s) f = (Raised e, s)"

text \<open>A call into a library (capture, sleep, pointer, drawing): the place where \<open>fault\<close> strikes.\<close>

definition lib_call :: "bot \<Rightarrow> signal \<times> bot" where
  "lib_call s =
     (case fault s of
        None \<Rightarrow> (Next, s)
      | Some (n, e) \<Rightarrow>
          (case n of
             0 \<Rightarrow> (Raised e, s\<lparr>fault := None\<rparr>)
           | Suc k \<Rightarrow> (Next, s\<lparr>fault := Some (k, e)\<rparr>)))"

definition sleep :: "bot \<Rightarrow> signal \<times> bot" where
  "sleep s = lib_call s"

text \<open>
  A pyautogui call checks the fail-safe, performs the operation and then pauses
  (\<open>pyautogui.PAUSE = 0.01\<close>): an exception can arrive before the operation or after it.
\<close>

definition moveTo :: "int \<Rightarrow> int \<Rightarrow> bot \<Rightarrow> signal \<times> bot" where
  "moveTo x y s =
     then_do (lib_call s) (\<lambda>s. lib_call (s\<lparr>pointer_ops := pointer_ops s @ [MoveTo x y]\<rparr>))"

definition mouseDown :: "bot \<Rightarrow> signal \<times> bot" where
  "mouseDown s =
     then_do (lib_call s)
       (\<lambda>s. lib_call (s\<lparr>button_down := True, pointer_ops := pointer_ops s @ [MouseDown]\<rparr>))"

text \<open>
  \<open>pyautogui.mouseUp()\<close> is called from the \<open>finally\<close> block only; pointer operations are
  taken to succeed there.
\<close>

definition mouseUp :: "bot \<Rightarrow> bot" where
  "mouseUp s = s\<lparr>button_down := False, pointer_ops := pointer_ops s @ [MouseUp]\<rparr>"

definition move_rocket :: "int \<Rightarrow> (int \<times> int) option \<Rightarrow> bot \<Rightarrow> signal \<times> bot" where
  "move_rocket target_x rocket_pos' s =
     (case game_region s of
        None \<Rightarrow> (Next, s)
      | Some reg \<Rightarrow>
          (case rocket_pos' of
             None \<Rightarrow> (Next, s)
           | Some (px, py) \<Rightarrow>
               (let rocket_screen_x = left reg + px;
                    rocket_screen_y = top_edge reg + py;
                    target_screen_x = left reg + target_x;
                    target_screen_y = rocket_screen_y
                in if \<not> mouse_pressed s then
                     then_do (moveTo rocket_screen_x rocket_screen_y s) (\<lambda>s.
                     then_do (sleep s) (\<lambda>s.
                     then_do (mouseDown s) (\<lambda>s.
                     sleep (s\<lparr>mouse_pressed := True\<rparr>))))
                   else
                     then_do (lib_call s) (\<lambda>s.
                     moveTo target_screen_x target_screen_y s))))"

text \<open>The keyboard listener's callback for ESC and F12.\<close>

definition on_press :: "bot \<Rightarrow> bot" where
  "on_press s = s\<lparr>emergency_stop := True, running := False\<rparr>"

text \<open>
  What one iteration observes: the contours of the three masks of the captured frame, the
  frame's width, whether a stop key is pressed during the iteration, and whether the debug
  window reports the quit key.
\<close>

record tick =
  purple :: "contour list"
  white :: "contour list"
  fire :: "contour list"
  frame_width :: int
  stop_key :: bool
  quit_key :: bool

text \<open>
  The body of the \<open>while\<close> loop. Without a capture region \<open>capture_game\<close> returns \<open>None\<close>
  and the body sleeps and continues. In debug mode the body reads \<open>target\<close>, which is
  unbound until a rocket position has been known once.
\<close>

definition loop_body :: "bool \<Rightarrow> tick \<Rightarrow> bot \<Rightarrow> signal \<times> bot" where
  "loop_body debug tk s =
     (case game_region s of
        None \<Rightarrow> sleep s
      | Some reg \<Rightarrow>
          then_do (lib_call s) (\<lambda>s.
            (case find_rocket (rocket_pos s) (purple tk) of (stored, rocket_pos') \<Rightarrow>
               (let s = s\<lparr>rocket_pos := stored\<rparr>;
                    items = find_items (white tk);
                    fireballs = find_fireballs (fire tk)
                in then_do
                     (case rocket_pos' of
                        None \<Rightarrow> (Next, s)
                      | Some _ \<Rightarrow>
                          (let target = calculate_safe_move rocket_pos' items fireballs (frame_width tk);
                               s = s\<lparr>target_var := Some target\<rparr>
                           in case target of
                                None \<Rightarrow> (Next, s)
                              | Some (tx, ty) \<Rightarrow> move_rocket tx rocket_pos' s))
                     (\<lambda>s.
                        then_do
                          (if debug then
                             then_do (lib_call s) (\<lambda>s.
                               (case target_var s of
                                  None \<Rightarrow> (Raised OtherException, s)
                                | Some _ \<Rightarrow>
                                    then_do (lib_call s) (\<lambda>s.
                                      if quit_key tk then (Break, s) else (Next, s))))
                           else (Next, s))
                          sleep)))))"

definition iteration :: "bool \<Rightarrow> tick \<Rightarrow> bot \<Rightarrow> signal \<times> bot" where
  "iteration debug tk s = loop_body debug tk (if stop_key tk then on_press s else s)"

text \<open>
  The \<open>while\<close> loop over the iterations of a finite run; \<open>None\<close> when the observations end
  while the loop is still running.
\<close>

fun run_loop :: "bool \<Rightarrow> tick list \<Rightarrow> bot \<Rightarrow> (signal \<times> bot) option" where
  "run_loop debug [] s =
     (if running s \<and> \<not> emergency_stop s then None else Some (Next, s))"
| "run_loop debug (tk # ticks) s =
     (if running s \<and> \<not> emergency_stop s then
        (case iteration debug tk s of
           (Next, s') \<Rightarrow> run_loop debug ticks s'
         | (Break, s') \<Rightarrow> Some (Break, s')
         | (Raised e, s') \<Rightarrow> Some (Raised e, s'))
      else Some (Next, s))"

text \<open>The \<open>finally\<close> block.\<close>

definition finally_block :: "bot \<Rightarrow> bot" where
  "finally_block s =
     (let s = s\<lparr>running := False\<rparr>
      in if mouse_pressed s then mouseUp s else s)"

text \<open>
  \<open>run\<close>: the result is how the try block ended (the loop condition became false, the
  debug \<open>break\<close>, or an exception; KeyboardInterrupt is caught, any other exception
  propagates after the \<open>finally\<close> block) and the state after the \<open>finally\<close> block.
\<close>

definition run :: "bool \<Rightarrow> tick list \<Rightarrow> bot \<Rightarrow> (signal \<times> bot) option" where
  "run debug ticks s =
     (case run_loop debug ticks (s\<lparr>running := True\<rparr>) of
        None \<Rightarrow> None
      | Some (how, s') \<Rightarrow> Some (how, finally_block s'))"

text \<open>The state after \<open>__init__\<close> and \<open>set_game_region\<close>, with the button up.\<close>

definition bot_init :: "region \<Rightarrow> (nat \<times> exn) option \<Rightarrow> bot" where
  "bot_init reg plan =
     \<lparr>game_region = Some reg, rocket_pos = None, running = False, mouse_pressed = False,
      emergency_stop = False, target_var = None, button_down = False, pointer_ops = [],
      fault = plan\<rparr>"

section \<open>Notions of the specification\<close>

text \<open>
  The notions in which the theorems are stated. They follow the words of the
  specification (path-safe candidate, cumulative danger score, centroid, bounding-box
  centre); \<open>spaced\<close> and \<open>first_argmin\<close> are the loop invariants of the proofs.
\<close>

text \<open>The image coordinates of an item.\<close>

definition item_xy :: "item \<Rightarrow> int \<times> int" where
  "item_xy it = (fst it, fst (snd it))"

text \<open>Straight-line distance between two pixel positions.\<close>

definition euclid :: "int \<times> int \<Rightarrow> int \<times> int \<Rightarrow> real" where
  "euclid p q = sqrt (real_of_int ((fst p - fst q)\<^sup>2 + (snd p - snd q)\<^sup>2))"

text \<open>The point at parameter \<open>t\<close> of the segment from the agent to a collectible.\<close>

definition sample_point :: "int \<times> int \<Rightarrow> int \<times> int \<Rightarrow> real \<Rightarrow> int \<times> int" where
  "sample_point rp ip t =
     (py_int (real_of_int (fst rp) + t * real_of_int (fst ip - fst rp)),
      py_int (real_of_int (snd rp) + t * real_of_int (snd ip - snd rp)))"

definition point_safe :: "zone list \<Rightarrow> int \<times> int \<Rightarrow> bool" where
  "point_safe zs p = is_safe zs (fst p) (snd p)"

text \<open>A path-safe candidate: every one of the five sampled points is safe.\<close>

definition path_safe_candidate :: "zone list \<Rightarrow> int \<times> int \<Rightarrow> int \<times> int \<Rightarrow> bool" where
  "path_safe_candidate zs rp ip =
     (\<forall>t \<in> {0, 1/4, 1/2, 3/4, 1}. point_safe zs (sample_point rp ip t))"


text \<open>The moment-based centroid and the centre of the bounding box of a contour.\<close>

definition moment_centroid :: "contour \<Rightarrow> int \<times> int" where
  "moment_centroid c = (py_int (m10 c / m00 c), py_int (m01 c / m00 c))"


text \<open>
  The invariant of the click loop: successive logged clicks are at least \<open>d\<close> apart,
  and \<open>last_click_time\<close> is the time of the last logged click.
\<close>

definition spaced :: "real \<Rightarrow> shooter \<Rightarrow> bool" where
  "spaced d s \<longleftrightarrow>
     successively (\<lambda>a b. d \<le> b - a) (map fst (clicked s)) \<and>
     (clicked s \<noteq> [] \<longrightarrow> last_click_time s = fst (last (clicked s)))"

text \<open>
  Index \<open>i\<close> is the first position of \<open>xs\<close> that minimises \<open>D\<close> among the elements
  satisfying \<open>C\<close>.
\<close>

definition first_argmin :: "('a \<Rightarrow> bool) \<Rightarrow> ('a \<Rightarrow> real) \<Rightarrow> 'a list \<Rightarrow> nat \<Rightarrow> bool" where
  "first_argmin C D xs i \<longleftrightarrow>
     i < length xs \<and> C (xs ! i) \<and>
     (\<forall>j < length xs. C (xs ! j) \<longrightarrow>
        D (xs ! i) \<le> D (xs ! j) \<and> (j < i \<longrightarrow> D (xs ! i) < D (xs ! j)))"

section \<open>Auxiliary facts about the planner\<close>

lemma is_safe_iff:
  "is_safe zs x y \<longleftrightarrow> (\<forall>(dx, dy, radius) \<in> set zs. \<not> sqrt (real_of_int ((x - dx)\<^sup>2 + (y - dy)\<^sup>2)) < radius)"
  by (induction zs x y rule: is_safe.induct) (auto simp: Let_def)

lemma sqrt_25: "sqrt 25 = 5" 
  by (rule real_sqrt_unique) simp_all

lemma path_safe_iff0:
  "path_safe zs (rx, ry) (ix, iy) ts \<longleftrightarrow> (\<forall>t \<in> set ts. point_safe zs (sample_point (rx, ry) (ix, iy) t))"
  by (induction ts) (auto simp: Let_def point_safe_def sample_point_def)

lemma path_safe_iff:
  "path_safe zs (rx, ry) (ix, iy) linspace_0_1_5 \<longleftrightarrow> path_safe_candidate zs (rx, ry) (ix, iy)"
  by (simp add: path_safe_iff0 path_safe_candidate_def linspace_0_1_5_def)

lemma scan_items_skip:
  "\<not> path_safe zs (rx, ry) (ix, iy) linspace_0_1_5 \<Longrightarrow>
   scan_items zs (rx, ry) (xs @ (ix, iy, area) # ys) acc = scan_items zs (rx, ry) (xs @ ys) acc"
proof (induction xs arbitrary: acc)
  case Nil
  then show ?case by (cases acc) simp
next
  case (Cons x xs)
  obtain jx jy ja where x: "x = (jx, jy, ja)" by (cases x)
  obtain bt bs where acc: "acc = (bt, bs)" by (cases acc)
  show ?case using Cons by (simp add: x acc Let_def)
qed

lemma first_argmin_snoc_keep:
  "first_argmin C D xs i \<Longrightarrow> (C x \<Longrightarrow> D (xs ! i) \<le> D x) \<Longrightarrow> first_argmin C D (xs @ [x]) i"
  by (auto simp: first_argmin_def nth_append less_Suc_eq)

lemma first_argmin_snoc_new:
  "C x \<Longrightarrow> (\<And>j. j < length xs \<Longrightarrow> C (xs ! j) \<Longrightarrow> D x < D (xs ! j)) \<Longrightarrow>
   first_argmin C D (xs @ [x]) (length xs)"
  by (auto simp: first_argmin_def nth_append less_Suc_eq intro: less_imp_le)

lemma scan_items_append:
  "scan_items zs (rx, ry) (xs @ ys) acc = scan_items zs (rx, ry) ys (scan_items zs (rx, ry) xs acc)"
proof (induction xs arbitrary: acc)
  case Nil
  then show ?case by (cases acc) simp
next
  case (Cons x xs)
  obtain jx jy ja where x: "x = (jx, jy, ja)" by (cases x)
  obtain bt bs where acc: "acc = (bt, bs)" by (cases acc)
  show ?case using Cons by (simp add: x acc Let_def)
qed

lemma scan_items_snoc:
  "scan_items zs (rx, ry) (xs @ [it]) acc =
     (if path_safe zs (rx, ry) (item_xy it) linspace_0_1_5 \<and>
         flt (euclid (item_xy it) (rx, ry)) (snd (scan_items zs (rx, ry) xs acc))
      then (Some (item_xy it), Fin (euclid (item_xy it) (rx, ry)))
      else scan_items zs (rx, ry) xs acc)"
proof -
  obtain ix iy a where it: "it = (ix, iy, a)" by (cases it)
  obtain bt bs where r: "scan_items zs (rx, ry) xs acc = (bt, bs)" by (cases "scan_items zs (rx, ry) xs acc")
  show ?thesis
    by (simp add: scan_items_append it r item_xy_def euclid_def Let_def)
qed

lemma scan_items_result:
  fixes zs rx ry
  defines "C \<equiv> \<lambda>it. path_safe zs (rx, ry) (item_xy it) linspace_0_1_5"
  defines "D \<equiv> \<lambda>it. euclid (item_xy it) (rx, ry)"
  shows "(if \<exists>it \<in> set xs. C it
          then \<exists>i. first_argmin C D xs i \<and>
                 scan_items zs (rx, ry) xs (None, PosInf) = (Some (item_xy (xs ! i)), Fin (D (xs ! i)))
          else scan_items zs (rx, ry) xs (None, PosInf) = (None, PosInf))"
proof (induction xs rule: rev_induct)
  case Nil
  show ?case by simp
next
  case (snoc x xs)
  let ?r = "scan_items zs (rx, ry) xs (None, PosInf)"
  have step: "scan_items zs (rx, ry) (xs @ [x]) (None, PosInf) =
      (if C x \<and> flt (D x) (snd ?r) then (Some (item_xy x), Fin (D x)) else ?r)"
    unfolding C_def D_def by (rule scan_items_snoc)
  show ?case
  proof (cases "\<exists>it \<in> set xs. C it")
    case False
    with snoc have r: "?r = (None, PosInf)" by simp
    show ?thesis
    proof (cases "C x")
      case True
      have "first_argmin C D (xs @ [x]) (length xs)"
        using True False by (intro first_argmin_snoc_new) auto
      then show ?thesis using True step r by auto
    next
      case nc: False
      then show ?thesis using False step r by auto
    qed
  next
    case True
    with snoc obtain i where i: "first_argmin C D xs i"
      and r: "?r = (Some (item_xy (xs ! i)), Fin (D (xs ! i)))" by auto
    have ilt: "i < length xs" using i by (simp add: first_argmin_def)
    show ?thesis
    proof (cases "C x \<and> D x < D (xs ! i)")
      case new: True
      have "first_argmin C D (xs @ [x]) (length xs)"
      proof (rule first_argmin_snoc_new)
        show "C x" using new by simp
      next
        fix j assume "j < length xs" "C (xs ! j)"
        then have "D (xs ! i) \<le> D (xs ! j)" using i by (simp add: first_argmin_def)
        then show "D x < D (xs ! j)" using new by simp
      qed
      then show ?thesis using new step r by auto
    next
      case keep: False
      have "first_argmin C D (xs @ [x]) i"
        using i keep by (intro first_argmin_snoc_keep) auto
      moreover have "scan_items zs (rx, ry) (xs @ [x]) (None, PosInf) = ?r"
        using keep step r by auto
      ultimately show ?thesis using True r ilt by (auto simp: nth_append)
    qed
  qed
qed








lemma danger_zones_set:
  "set (danger_zones fbs) =
     (\<lambda>fb. (fst (center fb), snd (center fb), real_of_int (danger_radius fb) * 1.5)) ` set fbs"
  by (induction fbs) (auto simp: case_prod_beta)

lemma py_int_of_int: "py_int (real_of_int n) = n"
  by (simp add: py_int_def)

lemma sqrt_225: "sqrt 225 = 15"
  by (rule real_sqrt_unique) simp_all


lemma py_range_50_70: "py_range 50 70 20 = [50]"
  by (simp add: py_range.simps)


section \<open>The planner\<close>

text \<open>
  Claim C2. For every list of danger zones and every point, \<open>is_safe\<close> returns
  false exactly when some zone's centre lies at Euclidean distance strictly less than that
  zone's radius from the point. A point at distance exactly equal to the radius of a zone
  is classified safe with respect to that zone.
\<close>

theorem is_safe_strict:
  "(is_safe zs x y = False \<longleftrightarrow>
      (\<exists>(dx, dy, radius) \<in> set zs. sqrt (real_of_int ((x - dx)\<^sup>2 + (y - dy)\<^sup>2)) < radius))
   \<and> (sqrt (real_of_int ((x - cx)\<^sup>2 + (y - cy)\<^sup>2)) = r \<longrightarrow> is_safe [(cx, cy, r)] x y)"
  by (fastforce simp: is_safe_iff)

theorem is_safe_strict_witness:
  "is_safe [(125, 100, 60)] 125 100 = False \<and> is_safe [(0, 0, 5)] 3 4"
  using is_safe_strict [where zs = "[(125, 100, 60)]" and x = 125 and y = 100 and cx = 0 and cy = 0 and r = 5]
    is_safe_strict [where zs = "[]" and x = 3 and y = 4 and cx = 0 and cy = 0 and r = 5]
  by (simp add: sqrt_25)

text \<open>
  Claim C3. If one of the five points sampled at \<open>t = 0, 1/4, 1/2, 3/4, 1\<close> on the
  segment from the agent to a collectible is unsafe, the collectible is not path-safe, and
  \<open>calculate_safe_move\<close> returns what it returns on the list without that collectible:
  the collectible is never selected as a path-safe candidate.
\<close>

theorem unsafe_sample_rejects_item:
  assumes "t \<in> {0, 1/4, 1/2, 3/4, 1}"
      and "\<not> is_safe (danger_zones fireballs)
               (py_int (real_of_int rx + t * real_of_int (ix - rx)))
               (py_int (real_of_int ry + t * real_of_int (iy - ry)))"
  shows "\<not> path_safe (danger_zones fireballs) (rx, ry) (ix, iy) linspace_0_1_5 \<and>
         calculate_safe_move (Some (rx, ry)) (before @ (ix, iy, area) # after) fireballs fw =
         calculate_safe_move (Some (rx, ry)) (before @ after) fireballs fw"
proof -
  have "\<not> path_safe_candidate (danger_zones fireballs) (rx, ry) (ix, iy)"
    unfolding path_safe_candidate_def point_safe_def sample_point_def
    using assms by (intro notI) (drule bspec [where x = t], auto)
  then have ns: "\<not> path_safe (danger_zones fireballs) (rx, ry) (ix, iy) linspace_0_1_5"
    by (simp add: path_safe_iff)
  show ?thesis
    using ns by (simp add: calculate_safe_move_def scan_items_skip)
qed

theorem unsafe_sample_rejects_item_witness:
  "\<not> path_safe (danger_zones [\<lparr>center = (125, 100), bounds = (105, 80, 40, 40), danger_radius = 40\<rparr>])
       (100, 100) (150, 100) linspace_0_1_5 \<and>
   calculate_safe_move (Some (100, 100)) [(150, 100, 1600)]
       [\<lparr>center = (125, 100), bounds = (105, 80, 40, 40), danger_radius = 40\<rparr>] 120 =
   calculate_safe_move (Some (100, 100)) []
       [\<lparr>center = (125, 100), bounds = (105, 80, 40, 40), danger_radius = 40\<rparr>] 120"
proof -
  let ?fb = "\<lparr>center = (125, 100), bounds = (105, 80, 40, 40), danger_radius = 40\<rparr>"
  have t: "(1/2 :: real) \<in> {0, 1/4, 1/2, 3/4, 1}" by simp
  have u: "\<not> is_safe (danger_zones [?fb])
             (py_int (real_of_int 100 + 1/2 * real_of_int (150 - 100)))
             (py_int (real_of_int 100 + 1/2 * real_of_int (100 - 100)))"
    by (simp add: py_int_def)
  from unsafe_sample_rejects_item [OF t u, of "[]" 1600 "[]" 120] show ?thesis by simp
qed

text \<open>
  Claim C4. When at least one collectible is a path-safe candidate,
  \<open>calculate_safe_move\<close> returns the position of a path-safe candidate whose Euclidean
  distance to the agent is smallest among the candidates, and strictly smaller than that of
  every candidate earlier in the list (the first found wins a tie). With the agent at
  \<open>(100, 100)\<close>, one collectible at \<open>(150, 100)\<close> and no hazard the target is
  \<open>(150, 100)\<close>.
\<close>

theorem nearest_path_safe_item_selected:
  assumes "\<exists>it \<in> set items. path_safe_candidate (danger_zones fireballs) (rx, ry) (item_xy it)"
  shows "(\<exists>i < length items.
            path_safe_candidate (danger_zones fireballs) (rx, ry) (item_xy (items ! i)) \<and>
            calculate_safe_move (Some (rx, ry)) items fireballs fw = Some (item_xy (items ! i)) \<and>
            (\<forall>j < length items.
               path_safe_candidate (danger_zones fireballs) (rx, ry) (item_xy (items ! j)) \<longrightarrow>
                 euclid (item_xy (items ! i)) (rx, ry) \<le> euclid (item_xy (items ! j)) (rx, ry) \<and>
                 (j < i \<longrightarrow>
                    euclid (item_xy (items ! i)) (rx, ry) < euclid (item_xy (items ! j)) (rx, ry)))) \<and>
         calculate_safe_move (Some (100, 100)) [(150, 100, area)] [] fw = Some (150, 100)"
proof -
  let ?zs = "danger_zones fireballs"
  have cand: "path_safe ?zs (rx, ry) (item_xy it) linspace_0_1_5 =
              path_safe_candidate ?zs (rx, ry) (item_xy it)" for it
    by (cases it) (simp add: item_xy_def path_safe_iff)
  obtain i where i: "first_argmin (\<lambda>it. path_safe_candidate ?zs (rx, ry) (item_xy it))
                       (\<lambda>it. euclid (item_xy it) (rx, ry)) items i"
    and r: "scan_items ?zs (rx, ry) items (None, PosInf) =
              (Some (item_xy (items ! i)), Fin (euclid (item_xy (items ! i)) (rx, ry)))"
    using scan_items_result [of items ?zs rx ry] assms by (auto simp: cand)
  have "calculate_safe_move (Some (rx, ry)) items fireballs fw = Some (item_xy (items ! i))"
    using r by (simp add: calculate_safe_move_def)
  then have general: "\<exists>i < length items.
            path_safe_candidate ?zs (rx, ry) (item_xy (items ! i)) \<and>
            calculate_safe_move (Some (rx, ry)) items fireballs fw = Some (item_xy (items ! i)) \<and>
            (\<forall>j < length items.
               path_safe_candidate ?zs (rx, ry) (item_xy (items ! j)) \<longrightarrow>
                 euclid (item_xy (items ! i)) (rx, ry) \<le> euclid (item_xy (items ! j)) (rx, ry) \<and>
                 (j < i \<longrightarrow>
                    euclid (item_xy (items ! i)) (rx, ry) < euclid (item_xy (items ! j)) (rx, ry)))"
    using i unfolding first_argmin_def by blast
  have example: "calculate_safe_move (Some (100, 100)) [(150, 100, area)] [] fw = Some (150, 100)"
    by (simp add: calculate_safe_move_def linspace_0_1_5_def)
  show ?thesis using general example by blast
qed

theorem nearest_path_safe_item_selected_witness:
  "calculate_safe_move (Some (100, 100)) [(150, 100, 1600), (50, 100, 1600)] [] 400 = Some (150, 100)"
proof -
  have h: "\<exists>it \<in> set [(150, 100, 1600), (50, 100, 1600)].
             path_safe_candidate (danger_zones []) (100, 100) (item_xy it)"
    by (auto simp: path_safe_candidate_def point_safe_def)
  from nearest_path_safe_item_selected [OF h, of 400 1600]
  show ?thesis by (simp add: calculate_safe_move_def linspace_0_1_5_def)
qed



text \<open>
  Claim C10. When the agent's position lies strictly inside the danger zone of some
  fireball, no collectible is path-safe (the sample at \<open>t = 0\<close> is the agent's position),
  the item loop leaves \<open>best_target\<close> unset, and \<open>calculate_safe_move\<close> returns the
  result of the fallback horizontal scan.
\<close>

theorem agent_in_zone_forces_fallback:
  assumes "fb \<in> set fireballs"
      and "sqrt (real_of_int ((rx - fst (center fb))\<^sup>2 + (ry - snd (center fb))\<^sup>2))
             < real_of_int (danger_radius fb) * 1.5"
  shows "(\<forall>it \<in> set items. \<not> path_safe (danger_zones fireballs) (rx, ry) (item_xy it) linspace_0_1_5) \<and>
         fst (scan_items (danger_zones fireballs) (rx, ry) items (None, PosInf)) = None \<and>
         calculate_safe_move (Some (rx, ry)) items fireballs fw =
           Some (fst (scan_positions (danger_zones fireballs) ry
                        (py_range 50 (fw - 50) 20) (rx, PosInf)), ry)"
proof -
  let ?zs = "danger_zones fireballs"
  have "(fst (center fb), snd (center fb), real_of_int (danger_radius fb) * 1.5) \<in> set ?zs"
    using assms(1) by (auto simp: danger_zones_set)
  with assms(2) have unsafe: "\<not> is_safe ?zs rx ry"
    by (fastforce simp: is_safe_iff)
  have rej: "\<not> path_safe ?zs (rx, ry) (item_xy it) linspace_0_1_5" for it
    using unsafe
    by (cases it) (simp add: item_xy_def linspace_0_1_5_def py_int_of_int)
  then have none: "scan_items ?zs (rx, ry) items (None, PosInf) = (None, PosInf)"
    using scan_items_result [of items ?zs rx ry] by auto
  show ?thesis using rej none by (simp add: calculate_safe_move_def)
qed

theorem agent_in_zone_forces_fallback_witness:
  "\<not> path_safe (danger_zones [\<lparr>center = (125, 100), bounds = (105, 80, 40, 40), danger_radius = 40\<rparr>])
       (110, 100) (150, 100) linspace_0_1_5 \<and>
   calculate_safe_move (Some (110, 100)) [(150, 100, 1600)]
       [\<lparr>center = (125, 100), bounds = (105, 80, 40, 40), danger_radius = 40\<rparr>] 120 = Some (50, 100)"
proof -
  let ?fb = "\<lparr>center = (125, 100), bounds = (105, 80, 40, 40), danger_radius = 40\<rparr>"
  have m: "?fb \<in> set [?fb]" by simp
  have d: "sqrt (real_of_int ((110 - fst (center ?fb))\<^sup>2 + (100 - snd (center ?fb))\<^sup>2))
             < real_of_int (danger_radius ?fb) * 1.5"
    by (simp add: sqrt_225)
  from agent_in_zone_forces_fallback [OF m d, of "[(150, 100, 1600)]" 120]
  show ?thesis by (simp add: item_xy_def py_range_50_70 Let_def)
qed
section \<open>Auxiliary facts about the classifiers\<close>

lemma find_rocket_loop_None:
  "\<forall>c \<in> set cs. \<not> (500 < contourArea c \<and> contourArea c < 10000) \<Longrightarrow> find_rocket_loop cs = None"
  by (induction cs) (auto simp: Let_def)

lemma find_rocket_loop_Some:
  "find_rocket_loop cs = Some p \<Longrightarrow>
   \<exists>c \<in> set cs. 500 < contourArea c \<and> contourArea c < 10000 \<and> 0 < m00 c \<and> p = moment_centroid c"
  by (induction cs) (auto simp: Let_def moment_centroid_def split: if_splits)

lemma find_rocket_cases:
  "find_rocket stored contours = (stored, stored) \<or>
   (\<exists>c \<in> set contours. 500 < contourArea c \<and> contourArea c < 10000 \<and> 0 < m00 c \<and>
      find_rocket stored contours = (Some (moment_centroid c), Some (moment_centroid c)))"
proof (cases "contours \<noteq> [] \<and> find_rocket_loop (sort_key (\<lambda>c. - contourArea c) contours) \<noteq> None")
  case True
  then obtain p where p: "find_rocket_loop (sort_key (\<lambda>c. - contourArea c) contours) = Some p"
    by auto
  from find_rocket_loop_Some [OF p] obtain c where
    "c \<in> set contours" "500 < contourArea c" "contourArea c < 10000" "0 < m00 c" "p = moment_centroid c"
    by auto
  then show ?thesis using True p by (auto simp: find_rocket_def)
next
  case False
  then show ?thesis
    by (cases "find_rocket_loop (sort_key (\<lambda>c. - contourArea c) contours)")
       (auto simp: find_rocket_def)
qed




lemma first_box_mem: "first_box bs = Some b \<Longrightarrow> b \<in> set bs"
proof -
  assume "first_box bs = Some b"
  then obtain rest where "sort_key box_key bs = b # rest"
    by (auto simp: first_box_def split: list.splits)
  then have "b \<in> set (sort_key box_key bs)" by simp
  then show ?thesis by (simp only: set_sort)
qed


section \<open>The classifiers\<close>




text \<open>
  Claim C9. When no contour of the frame passes the area filter \<open>500 < area < 10000\<close>,
  \<open>find_rocket\<close> leaves the stored position unchanged and returns it. The stored position
  changes only to the centroid of a contour of the frame that passes the filter, and a
  known position is never cleared.
\<close>

theorem rocket_pos_kept_without_detection:
  "((\<forall>c \<in> set contours. \<not> (500 < contourArea c \<and> contourArea c < 10000)) \<longrightarrow>
      find_rocket stored contours = (stored, stored)) \<and>
   (find_rocket stored contours = (stored, stored) \<or>
    (\<exists>c \<in> set contours. 500 < contourArea c \<and> contourArea c < 10000 \<and>
       find_rocket stored contours = (Some (moment_centroid c), Some (moment_centroid c)))) \<and>
   (stored \<noteq> None \<longrightarrow> fst (find_rocket stored contours) \<noteq> None)"
proof -
  have a: "find_rocket stored contours = (stored, stored)"
    if "\<forall>c \<in> set contours. \<not> (500 < contourArea c \<and> contourArea c < 10000)"
    using find_rocket_loop_None [of "sort_key (\<lambda>c. - contourArea c) contours"] that
    by (simp add: find_rocket_def)
  have b: "find_rocket stored contours = (stored, stored) \<or>
    (\<exists>c \<in> set contours. 500 < contourArea c \<and> contourArea c < 10000 \<and>
       find_rocket stored contours = (Some (moment_centroid c), Some (moment_centroid c)))"
    using find_rocket_cases [of stored contours] by blast
  have c: "fst (find_rocket stored contours) \<noteq> None" if "stored \<noteq> None"
    using b that by auto
  show ?thesis using a b c by blast
qed

theorem rocket_pos_kept_without_detection_witness:
  "find_rocket (Some (100, 100))
     [\<lparr>contourArea = 120, boundingRect = (10, 10, 12, 12), m00 = 120, m10 = 1920, m01 = 1920,
       approx_len = 4\<rparr>] = (Some (100, 100), Some (100, 100)) \<and>
   find_rocket (Some (100, 100)) [] = (Some (100, 100), Some (100, 100))"
  using rocket_pos_kept_without_detection [of
     "[\<lparr>contourArea = 120, boundingRect = (10, 10, 12, 12), m00 = 120, m10 = 1920, m01 = 1920,
       approx_len = 4\<rparr>]" "Some (100, 100)"]
    rocket_pos_kept_without_detection [of "[]" "Some (100, 100)"]
  by simp
section \<open>Auxiliary facts about the click bot\<close>

lemma first_box_Some: "bs \<noteq> [] \<Longrightarrow> \<exists>b. first_box bs = Some b"
proof -
  assume "bs \<noteq> []"
  then have "sort_key box_key bs \<noteq> []" by (metis length_sort length_0_conv)
  then show ?thesis by (auto simp: first_box_def split: list.splits)
qed

lemma first_box_sorted:
  "first_box bs = Some b \<Longrightarrow> \<exists>rest. sort_key box_key bs = b # rest"
  by (auto simp: first_box_def split: list.splits)

lemma first_box_min:
  assumes "first_box bs = Some b" "b' \<in> set bs"
  shows "box_key b \<le> box_key b'"
proof -
  obtain rest where r: "sort_key box_key bs = b # rest" using assms(1) first_box_sorted by blast
  have "sorted (map box_key (sort_key box_key bs))" by (rule sorted_sort_key)
  then have s: "\<forall>k \<in> set (map box_key rest). box_key b \<le> k" by (simp add: r)
  have "b' \<in> set (sort_key box_key bs)" using assms(2) by simp
  then have "b' = b \<or> b' \<in> set rest" by (simp add: r)
  then show ?thesis using s by auto
qed

lemma first_box_stable:
  assumes "first_box bs = Some b"
  shows "hd (filter (\<lambda>b'. box_key b' = box_key b) bs) = b"
proof -
  obtain rest where r: "sort_key box_key bs = b # rest" using assms first_box_sorted by blast
  have "filter (\<lambda>b'. box_key b' = box_key b) bs =
        filter (\<lambda>b'. box_key b' = box_key b) (sort_key box_key bs)"
    by (rule sort_key_stable [symmetric])
  then show ?thesis by (simp add: r)
qed

lemma shooter_step_cases:
  "shooter_step d reg boxes now s = s \<or>
   (boxes \<noteq> [] \<and> d \<le> now - last_click_time s \<and>
    (\<exists>p. clicked (shooter_step d reg boxes now s) = clicked s @ [(now, p)]) \<and>
    last_click_time (shooter_step d reg boxes now s) = now)"
  by (auto simp: shooter_step_def Let_def split: option.splits)

lemma shooter_step_spaced:
  assumes "spaced d s"
  shows "spaced d (shooter_step d reg boxes now s)"
proof -
  from shooter_step_cases [of d reg boxes now s] show ?thesis
  proof
    assume "shooter_step d reg boxes now s = s"
    then show ?thesis using assms by simp
  next
    assume c: "boxes \<noteq> [] \<and> d \<le> now - last_click_time s \<and>
      (\<exists>p. clicked (shooter_step d reg boxes now s) = clicked s @ [(now, p)]) \<and>
      last_click_time (shooter_step d reg boxes now s) = now"
    then obtain p where p: "clicked (shooter_step d reg boxes now s) = clicked s @ [(now, p)]"
      by blast
    have "clicked s = [] \<or> d \<le> now - last (map fst (clicked s))"
    proof (cases "clicked s = []")
      case True
      then show ?thesis by simp
    next
      case False
      then have "last (map fst (clicked s)) = last_click_time s"
        using assms by (simp add: spaced_def last_map)
      then show ?thesis using c by simp
    qed
    then have "successively (\<lambda>a b. d \<le> b - a) (map fst (clicked s) @ [now])"
      using assms by (auto simp: spaced_def successively_append_iff)
    then show ?thesis using c p by (simp add: spaced_def)
  qed
qed

lemma shooter_loop_spaced:
  "spaced d s \<Longrightarrow> spaced d (shooter_loop d reg obs s)"
proof (induction obs arbitrary: s)
  case Nil
  then show ?case by simp
next
  case (Cons ob obs)
  obtain boxes now where ob: "ob = (boxes, now)" by (cases ob)
  show ?case using Cons by (simp add: ob shooter_step_spaced)
qed

lemma spaced_init: "spaced d shooter_init"
  by (simp add: spaced_def shooter_init_def)

section \<open>The click bot\<close>

text \<open>
  Claim C6. On a non-empty list of boxes the selector returns a box of the list that is
  topmost and, among the topmost, leftmost: its \<open>(y, x)\<close> is least in the lexicographic
  order, and it is the first box of the list at that position (the sort is stable). Two
  lists with the same set of boxes give a first element at the same position. On the boxes
  \<open>(10, 10, 20, 20)\<close> and \<open>(5, 50, 20, 20)\<close> the first is \<open>(10, 10, 20, 20)\<close>.
\<close>

theorem first_box_topmost_then_leftmost:
  "(red_boxes \<noteq> [] \<longrightarrow>
      (\<exists>x y w h. first_box red_boxes = Some (x, y, w, h) \<and> (x, y, w, h) \<in> set red_boxes \<and>
         (\<forall>b' \<in> set red_boxes. y < fst (snd b') \<or> (y = fst (snd b') \<and> x \<le> fst b')) \<and>
         hd (filter (\<lambda>b'. fst (snd b') = y \<and> fst b' = x) red_boxes) = (x, y, w, h))) \<and>
   (set red_boxes = set other \<longrightarrow>
      map_option box_key (first_box red_boxes) = map_option box_key (first_box other)) \<and>
   first_box [(10, 10, 20, 20), (5, 50, 20, 20)] = Some (10, 10, 20, 20)"
proof -
  have key: "box_key b' = (fst (snd b'), fst b')" for b' :: box
    by (cases b') (simp add: box_key_def)
  have a: "\<exists>x y w h. first_box red_boxes = Some (x, y, w, h) \<and> (x, y, w, h) \<in> set red_boxes \<and>
         (\<forall>b' \<in> set red_boxes. y < fst (snd b') \<or> (y = fst (snd b') \<and> x \<le> fst b')) \<and>
         hd (filter (\<lambda>b'. fst (snd b') = y \<and> fst b' = x) red_boxes) = (x, y, w, h)"
    if "red_boxes \<noteq> []"
  proof -
    from that obtain b where b: "first_box red_boxes = Some b" using first_box_Some by blast
    obtain x y w h where xy: "b = (x, y, w, h)" by (cases b) auto
    have m: "(x, y, w, h) \<in> set red_boxes" using b xy first_box_mem by blast
    have le: "y < fst (snd b') \<or> (y = fst (snd b') \<and> x \<le> fst b')" if "b' \<in> set red_boxes" for b'
      using first_box_min [OF b that] by (auto simp: key xy)
    have "hd (filter (\<lambda>b'. box_key b' = box_key b) red_boxes) = b"
      using b by (rule first_box_stable)
    then have st: "hd (filter (\<lambda>b'. fst (snd b') = y \<and> fst b' = x) red_boxes) = (x, y, w, h)"
      by (simp add: key xy)
    show ?thesis using b xy m le st by blast
  qed
  have p: "map_option box_key (first_box red_boxes) = map_option box_key (first_box other)"
    if eq: "set red_boxes = set other"
  proof (cases "red_boxes = []")
    case True
    then have "other = []" using eq by simp
    then show ?thesis using True by simp
  next
    case False
    then have "other \<noteq> []" using eq by auto
    then obtain c where c: "first_box other = Some c" using first_box_Some by blast
    from False obtain b where b: "first_box red_boxes = Some b" using first_box_Some by blast
    have "box_key b \<le> box_key c" using first_box_min [OF b] first_box_mem [OF c] eq by simp
    moreover have "box_key c \<le> box_key b" using first_box_min [OF c] first_box_mem [OF b] eq by simp
    ultimately show ?thesis using b c by simp
  qed
  have e: "first_box [(10, 10, 20, 20), (5, 50, 20, 20)] = Some (10, 10, 20, 20)"
    by (simp add: first_box_def box_key_def)
  show ?thesis using a p e by blast
qed

theorem first_box_topmost_then_leftmost_witness:
  "first_box [(5, 50, 20, 20), (30, 10, 20, 20), (10, 10, 20, 20)] = Some (10, 10, 20, 20) \<and>
   map_option box_key (first_box [(10, 10, 20, 20), (30, 10, 20, 20), (5, 50, 20, 20)]) = Some (10, 10)"
  using first_box_topmost_then_leftmost
    [of "[(5, 50, 20, 20), (30, 10, 20, 20), (10, 10, 20, 20)]"
        "[(10, 10, 20, 20), (30, 10, 20, 20), (5, 50, 20, 20)]"]
  by (simp add: first_box_def box_key_def)

text \<open>
  Claim C7. In every run of the click loop, the clock readings of two successive
  dispatched clicks differ by at least \<open>click_delay\<close>; for a non-negative
  \<open>click_delay\<close> this holds for any two dispatched clicks. An iteration dispatches a click
  only if at least \<open>click_delay\<close> has elapsed since \<open>last_click_time\<close>, however many
  boxes it detects.
\<close>

theorem clicks_respect_delay:
  "(let ts = map fst (clicked (shooter_loop click_delay reg obs shooter_init)) in
      (\<forall>k. Suc k < length ts \<longrightarrow> click_delay \<le> ts ! Suc k - ts ! k) \<and>
      (0 \<le> click_delay \<longrightarrow> (\<forall>i j. i < j \<and> j < length ts \<longrightarrow> click_delay \<le> ts ! j - ts ! i))) \<and>
   (clicked (shooter_step click_delay reg red_boxes now s) \<noteq> clicked s \<longrightarrow>
      click_delay \<le> now - last_click_time s)"
proof -
  let ?ts = "map fst (clicked (shooter_loop click_delay reg obs shooter_init))"
  let ?P = "\<lambda>a b :: real. click_delay \<le> b - a"
  have suc: "successively ?P ?ts"
    using shooter_loop_spaced [OF spaced_init, of click_delay reg obs] by (simp add: spaced_def)
  then have a: "\<forall>k. Suc k < length ?ts \<longrightarrow> click_delay \<le> ?ts ! Suc k - ?ts ! k"
    by (simp only: successively_conv_nth)
  have b: "\<forall>i j. i < j \<and> j < length ?ts \<longrightarrow> click_delay \<le> ?ts ! j - ?ts ! i" if "0 \<le> click_delay"
  proof -
    have "transp ?P" using that by (auto simp: transp_def)
    then have "sorted_wrt ?P ?ts" using suc by (simp only: successively_conv_sorted_wrt)
    then show ?thesis by (simp only: sorted_wrt_iff_nth_less) blast
  qed
  have c: "click_delay \<le> now - last_click_time s"
    if "clicked (shooter_step click_delay reg red_boxes now s) \<noteq> clicked s"
    using shooter_step_cases [of click_delay reg red_boxes now s] that by auto
  show ?thesis unfolding Let_def using a b c by blast
qed

theorem clicks_respect_delay_witness:
  "map fst (clicked (shooter_loop (1/2) \<lparr>left = 0, top_edge = 0, width = 400, height = 600\<rparr>
      [([(10, 10, 20, 20)], 100), ([(10, 10, 20, 20)], 401/4), ([(10, 10, 20, 20)], 403/4)]
      shooter_init)) = [100, 403/4]"
  using clicks_respect_delay [of "1/2" "\<lparr>left = 0, top_edge = 0, width = 400, height = 600\<rparr>"
      "[([(10, 10, 20, 20)], 100), ([(10, 10, 20, 20)], 401/4), ([(10, 10, 20, 20)], 403/4)]"
      "[(10, 10, 20, 20)]" 100 shooter_init]
  by (simp add: shooter_step_def shooter_init_def first_box_def click_box_def)
section \<open>The run loop of the steering bot\<close>




text \<open>
  The condition on \<open>mouse_pressed\<close> is needed in this model: an interrupt that arrives
  inside \<open>pyautogui.mouseDown\<close>, after the press and before \<open>mouse_pressed\<close> is set,
  ends the run with the flag false, and the \<open>finally\<close> block issues no release.
\<close>

lemma interrupt_before_flag_example:
  "map_option (\<lambda>r. (fst r, mouse_pressed (snd r), button_down (snd r), pointer_ops (snd r)))
     (run False
        [\<lparr>purple = [\<lparr>contourArea = 1000, boundingRect = (40, 80, 40, 40), m00 = 1000, m10 = 60000,
                     m01 = 100000, approx_len = 4\<rparr>],
          white = [], fire = [], frame_width = 120, stop_key = False, quit_key = False\<rparr>]
        (bot_init \<lparr>left = 0, top_edge = 0, width = 120, height = 200\<rparr>
           (Some (5, KeyboardInterrupt)))) =
     Some (Raised KeyboardInterrupt, False, True, [MoveTo 60 100, MouseDown])"
  by (simp add: run_def finally_block_def iteration_def loop_body_def on_press_def lib_call_def
      sleep_def moveTo_def mouseDown_def move_rocket_def find_rocket_def calculate_safe_move_def
      py_range_50_70 bot_init_def Let_def py_int_def eval_nat_numeral)

end
